theory Spec2Isabelle
  imports Main
begin

section \<open>Requests, responses and what a run of the server leaves behind\<close>

text \<open>
  The server reads two fields of an incoming message, \<open>req.method\<close> and \<open>req.url\<close>
  (the fields \<open>req_method\<close> and \<open>req_url\<close> below), and talks to the response object
  through \<open>res.writeHead(status, headers)\<close> and \<open>res.end(body)\<close>. The example program
  also calls \<open>console.log\<close>. A header object such as \<open>{ "Content-Type": "text/plain" }\<close>
  is a list of name/value pairs.
\<close>

record request =
  req_method :: string
  req_url :: string

type_synonym headers = "(string \<times> string) list"

datatype call =
    WriteHead nat headers
  | End string
  | ConsoleLog string

text \<open>
  Handling one request is a function on the list of events that have happened so far.
  An event is either a call that the code made and that returned (\<open>Call\<close>), or a mark
  that a function of the program was entered: the middleware at an index of
  \<open>this.middlewares\<close>, \<open>finalRequestHandler\<close>, or the callback of a route registration.
  The marks change nothing; they make "which function ran, and when" a property of the
  result.
\<close>

datatype event =
    Call call
  | MiddlewareCalled nat
  | FinalCalled
  | CallbackCalled

text \<open>
  The exceptions of the program: the \<open>TypeError\<close> of calling \<open>undefined\<close>, the
  \<open>ERR_HTTP_HEADERS_SENT\<close> that Node's \<open>writeHead\<close> throws, and the \<open>Error\<close> that
  \<open>HttpServer.app\<close> throws itself. Nothing in the program catches an exception, so a
  piece of code either returns, with the events as it leaves them, or throws, and then
  the outcome is the exception together with the events up to the throw.
\<close>

datatype error =
    TypeError
  | ERR_HTTP_HEADERS_SENT
  | Error string

type_synonym outcome = "(error \<times> event list) + event list"

definition then_do :: "outcome \<Rightarrow> (event list \<Rightarrow> outcome) \<Rightarrow> outcome" where
  "then_do r f = (case r of Inl x \<Rightarrow> Inl x | Inr tr \<Rightarrow> f tr)"

definition events :: "outcome \<Rightarrow> event list" where
  "events r = (case r of Inl x \<Rightarrow> snd x | Inr tr \<Rightarrow> tr)"

definition returned :: "outcome \<Rightarrow> bool" where
  "returned r = (case r of Inl x \<Rightarrow> False | Inr tr \<Rightarrow> True)"

text \<open>
  The response object is Node's \<open>ServerResponse\<close>. Two facts about it matter here.
  The head of a response (status line and headers) is sent by the first \<open>writeHead\<close>,
  or by the first \<open>end\<close> when no \<open>writeHead\<close> came before it. And \<open>writeHead\<close> throws
  \<open>ERR_HTTP_HEADERS_SENT\<close> when the head has been sent already, while \<open>end\<close> always
  returns. \<open>console.log\<close> always returns.
\<close>

fun sends_head :: "call \<Rightarrow> bool" where
  "sends_head (WriteHead status hs) = True"
| "sends_head (End body) = True"
| "sends_head (ConsoleLog line) = False"

fun head_event :: "event \<Rightarrow> bool" where
  "head_event (Call c) = sends_head c"
| "head_event e = False"

definition head_sent :: "event list \<Rightarrow> bool" where
  "head_sent tr = list_ex head_event tr"

definition res_writeHead :: "nat \<Rightarrow> headers \<Rightarrow> event list \<Rightarrow> outcome" where
  "res_writeHead status hs tr =
     (if head_sent tr then Inl (ERR_HTTP_HEADERS_SENT, tr)
      else Inr (tr @ [Call (WriteHead status hs)]))"

definition res_end :: "string \<Rightarrow> event list \<Rightarrow> outcome" where
  "res_end body tr = Inr (tr @ [Call (End body)])"

definition console_log :: "string \<Rightarrow> event list \<Rightarrow> outcome" where
  "console_log line tr = Inr (tr @ [Call (ConsoleLog line)])"

text \<open>
  User code. A middleware \<open>(req, res, next) => void\<close> is the sequence of things its body
  does for a given request before it returns: calls on the response or the console, and
  calls of its continuation \<open>next()\<close>, any number of them, in any order. A route callback
  \<open>(req, res) => void\<close> has no continuation, so it is a sequence of calls only.
  User code throws only where one of its calls throws, catches nothing, and does not keep
  \<open>next\<close> to call it after it has returned.
\<close>

datatype action =
    Do call
  | CallNext

type_synonym middleware = "request \<Rightarrow> action list"

type_synonym callback = "request \<Rightarrow> call list"

fun do_call :: "call \<Rightarrow> event list \<Rightarrow> outcome" where
  "do_call (WriteHead status hs) tr = res_writeHead status hs tr"
| "do_call (End body) tr = res_end body tr"
| "do_call (ConsoleLog line) tr = console_log line tr"

fun do_calls :: "call list \<Rightarrow> event list \<Rightarrow> outcome" where
  "do_calls [] tr = Inr tr"
| "do_calls (c # cs) tr =
     (case do_call c tr of
        Inl x \<Rightarrow> Inl x
      | Inr tr' \<Rightarrow> do_calls cs tr')"

section \<open>The final request handler\<close>

text \<open>
  \<open>finalRequestHandler\<close>: the \<open>switch\<close> over \<open>method\<close> with the four cases that fall
  through to the 200 answer, and the \<open>default\<close> case answering 405. In both,
  \<open>res.end\<close> is reached only when \<open>res.writeHead\<close> has returned.
\<close>

definition finalRequestHandler :: "request \<Rightarrow> event list \<Rightarrow> outcome" where
  "finalRequestHandler req tr =
     (let headers = [(''Content-Type'', ''text/plain'')] in
      if req_method req = ''GET'' \<or> req_method req = ''POST'' \<or> req_method req = ''PUT''
           \<or> req_method req = ''DELETE''
      then then_do (res_writeHead 200 headers tr)
             (res_end (''Received '' @ req_method req @ '' request for '' @ req_url req))
      else then_do (res_writeHead 405 headers tr)
             (res_end (''Method '' @ req_method req @ '' not allowed'')))"

section \<open>Route registrations\<close>

text \<open>
  \<open>registerHandler(method, route, callback)\<close> subscribes a listener to the server's
  \<open>request\<close> event. \<open>route_listener\<close> is that listener: the arrow function of
  \<open>registerHandler\<close> with \<open>method\<close>, \<open>route\<close> and \<open>callback\<close> captured. The message
  of the 405 branch is built from the captured \<open>method\<close>.
\<close>

definition route_listener ::
  "string \<Rightarrow> string \<Rightarrow> callback \<Rightarrow> request \<Rightarrow> event list \<Rightarrow> outcome" where
  "route_listener meth route cb req tr =
     (if req_method req \<noteq> meth
      then then_do (res_writeHead 405 [(''Content-Type'', ''text/plain'')] tr)
             (res_end (''Method '' @ meth @ '' not allowed''))
      else if req_url req \<noteq> route
      then then_do (res_writeHead 404 [(''Content-Type'', ''text/plain'')] tr)
             (res_end ''Not found'')
      else do_calls (cb req) (tr @ [CallbackCalled]))"

section \<open>The server object\<close>

text \<open>
  An \<open>HttpServer\<close> owns the array \<open>this.middlewares\<close> and the Node server
  \<open>this.server\<close>. Of the latter only the listeners of its \<open>request\<close> event matter:
  \<open>createServer(this.handleRequest.bind(this))\<close> subscribes \<open>handleRequest\<close> first, and
  every \<open>registerHandler\<close> subscribes one more listener behind it. \<open>listen\<close> hands its
  arguments to the Node server and has no part in what follows.
\<close>

datatype listener =
    HandleRequest
  | RouteListener string string callback

record HttpServer =
  middlewares :: "middleware list"
  request_listeners :: "listener list"

definition new_HttpServer :: HttpServer where
  "new_HttpServer = \<lparr>middlewares = [], request_listeners = [HandleRequest]\<rparr>"

definition use :: "middleware \<Rightarrow> HttpServer \<Rightarrow> HttpServer" where
  "use mw this = this\<lparr>middlewares := middlewares this @ [mw]\<rparr>"

definition registerHandler :: "string \<Rightarrow> string \<Rightarrow> callback \<Rightarrow> HttpServer \<Rightarrow> HttpServer" where
  "registerHandler meth route cb this =
     this\<lparr>request_listeners := request_listeners this @ [RouteListener meth route cb]\<rparr>"

definition get :: "string \<Rightarrow> callback \<Rightarrow> HttpServer \<Rightarrow> HttpServer" where
  "get route cb this = registerHandler ''GET'' route cb this"

definition post :: "string \<Rightarrow> callback \<Rightarrow> HttpServer \<Rightarrow> HttpServer" where
  "post route cb this = registerHandler ''POST'' route cb this"

definition put :: "string \<Rightarrow> callback \<Rightarrow> HttpServer \<Rightarrow> HttpServer" where
  "put route cb this = registerHandler ''PUT'' route cb this"

definition delete :: "string \<Rightarrow> callback \<Rightarrow> HttpServer \<Rightarrow> HttpServer" where
  "delete route cb this = registerHandler ''DELETE'' route cb this"

section \<open>The dispatcher\<close>

text \<open>
  \<open>handleRequest\<close> sets \<open>currentMiddlewareIndex\<close> to 0, defines the closure
  \<open>nextMiddleware\<close> and calls \<open>this.middlewares[0](req, res, nextMiddleware)\<close>.

  \<open>run\<close> executes middleware bodies. Its first argument is the server object \<open>this\<close>,
  which \<open>nextMiddleware\<close> reads at every call (\<open>this.middlewares.length\<close>,
  \<open>this.middlewares[currentMiddlewareIndex]\<close>); it is handed back with the outcome, as
  the object is when the code leaves it. Its third argument is what is still to be done,
  innermost first: the rest of the body of the middleware that is running, followed by the
  rests of the bodies of the middleware that wait for their \<open>next()\<close> to return (the call
  stack, flattened). Its fourth argument is \<open>currentMiddlewareIndex\<close>, one variable
  shared by all calls of \<open>nextMiddleware\<close> of the request. The \<open>CallNext\<close> equation is
  the body of \<open>nextMiddleware\<close>: increment, compare with \<open>this.middlewares.length\<close>,
  then either enter the middleware at the new index or \<open>finalRequestHandler\<close>.
  An exception leaves all the waiting bodies at once.
\<close>

function run ::
  "HttpServer \<Rightarrow> request \<Rightarrow> action list \<Rightarrow> nat \<Rightarrow> event list \<Rightarrow> HttpServer \<times> outcome" where
  "run this req [] i tr = (this, Inr tr)"
| "run this req (Do c # rest) i tr =
     (case do_call c tr of
        Inl x \<Rightarrow> (this, Inl x)
      | Inr tr' \<Rightarrow> run this req rest i tr')"
| "run this req (CallNext # rest) i tr =
     (if Suc i < length (middlewares this)
      then run this req ((middlewares this ! Suc i) req @ rest) (Suc i)
             (tr @ [MiddlewareCalled (Suc i)])
      else (case finalRequestHandler req (tr @ [FinalCalled]) of
              Inl x \<Rightarrow> (this, Inl x)
            | Inr tr' \<Rightarrow> run this req rest (Suc i) tr'))"
  by pat_completeness auto
termination
  by (relation "measures [\<lambda>(this, req, rest, i, tr). length (middlewares this) - i,
                          \<lambda>(this, req, rest, i, tr). length rest]") auto

text \<open>
  Calling \<open>this.middlewares[0]\<close> when the array is empty calls \<open>undefined\<close>, which throws
  a \<open>TypeError\<close> before anything else has happened.
\<close>

definition handleRequest :: "HttpServer \<Rightarrow> request \<Rightarrow> event list \<Rightarrow> HttpServer \<times> outcome" where
  "handleRequest this req tr =
     (case middlewares this of
        [] \<Rightarrow> (this, Inl (TypeError, tr))
      | m # _ \<Rightarrow> run this req (m req) 0 (tr @ [MiddlewareCalled 0]))"

text \<open>
  An incoming request is emitted as a \<open>request\<close> event: the listeners subscribed at that
  moment are called in the order of their subscription, each with the same request and
  response, and an exception thrown by one of them leaves the emission at once.
\<close>

definition call_listener ::
  "HttpServer \<Rightarrow> request \<Rightarrow> listener \<Rightarrow> event list \<Rightarrow> HttpServer \<times> outcome" where
  "call_listener this req l tr =
     (case l of
        HandleRequest \<Rightarrow> handleRequest this req tr
      | RouteListener meth route cb \<Rightarrow> (this, route_listener meth route cb req tr))"

fun emit_request ::
  "HttpServer \<Rightarrow> request \<Rightarrow> listener list \<Rightarrow> event list \<Rightarrow> HttpServer \<times> outcome" where
  "emit_request this req [] tr = (this, Inr tr)"
| "emit_request this req (l # ls) tr =
     (case call_listener this req l tr of
        (this', Inl x) \<Rightarrow> (this', Inl x)
      | (this', Inr tr') \<Rightarrow> emit_request this' req ls tr')"

text \<open>Serving one request: a fresh response (no events yet) goes through all listeners.\<close>

definition serve :: "HttpServer \<Rightarrow> request \<Rightarrow> HttpServer \<times> outcome" where
  "serve this req = emit_request this req (request_listeners this) []"


section \<open>The singleton factory\<close>

text \<open>
  \<open>HttpServer.instance\<close> is a static field: one slot per process, holding a reference
  to a server object or nothing. A process is the store of server objects (a reference
  is a position in it) together with that slot. \<open>app\<close> throws when the slot is taken;
  otherwise it constructs a server, stores the reference in the slot and returns it.
  The result is the value or the exception, and the process as the call leaves it.
\<close>

record process =
  heap :: "HttpServer list"
  HttpServer_instance :: "nat option"

definition start :: process where
  "start = \<lparr>heap = [], HttpServer_instance = None\<rparr>"

definition app :: "process \<Rightarrow> (error + nat) \<times> process" where
  "app p =
     (case HttpServer_instance p of
        Some a \<Rightarrow> (Inl (Error ''You can not run 2 servers on the same machine''), p)
      | None \<Rightarrow>
          (let a = length (heap p)
           in (Inr a, p\<lparr>heap := heap p @ [new_HttpServer], HttpServer_instance := Some a\<rparr>)))"

text \<open>
  A method called on a reference (\<open>app.use(...)\<close>, \<open>app.get(...)\<close>) changes the object
  the reference points to, and nothing else.
\<close>

definition update_at :: "nat \<Rightarrow> (HttpServer \<Rightarrow> HttpServer) \<Rightarrow> process \<Rightarrow> process" where
  "update_at a f p = p\<lparr>heap := (heap p)[a := f (heap p ! a)]\<rparr>"

section \<open>The example program\<close>

text \<open>
  \<open>index.ts\<close> registers one middleware that logs a line and returns without calling
  \<open>next\<close>, and one route, \<open>GET /ilia\<close>, whose callback ends the response with \<open>zd\<close>.
\<close>

definition index_server :: HttpServer where
  "index_server =
     get ''/ilia'' (\<lambda>req. [End ''zd''])
       (use (\<lambda>req. [Do (ConsoleLog ''Middleware called'')]) new_HttpServer)"

section \<open>Reading a run\<close>

text \<open>The indices of the middleware that were entered, in the order they were entered.\<close>

fun called_indices :: "event list \<Rightarrow> nat list" where
  "called_indices [] = []"
| "called_indices (MiddlewareCalled i # tr) = i # called_indices tr"
| "called_indices (e # tr) = called_indices tr"

text \<open>How often \<open>finalRequestHandler\<close> was entered.\<close>

definition final_runs :: "event list \<Rightarrow> nat" where
  "final_runs tr = count_list tr FinalCalled"

text \<open>How often the response was finalized: the calls of \<open>res.end\<close>.\<close>

fun is_End :: "call \<Rightarrow> bool" where
  "is_End (End body) = True"
| "is_End c = False"

fun is_finalization :: "event \<Rightarrow> bool" where
  "is_finalization (Call c) = is_End c"
| "is_finalization e = False"

definition finalizations :: "event list \<Rightarrow> nat" where
  "finalizations tr = length (filter is_finalization tr)"

text \<open>How often a middleware body calls its continuation.\<close>

definition next_calls :: "action list \<Rightarrow> nat" where
  "next_calls as = count_list as CallNext"

text \<open>
  A body that neither writes the head nor ends the response before its first call of
  \<open>next()\<close> (or at all, when it has none), and a body that never does.
\<close>

fun silent_until_next :: "action list \<Rightarrow> bool" where
  "silent_until_next [] = True"
| "silent_until_next (CallNext # as) = True"
| "silent_until_next (Do c # as) = (\<not> sends_head c \<and> silent_until_next as)"

fun silent :: "action list \<Rightarrow> bool" where
  "silent [] = True"
| "silent (CallNext # as) = silent as"
| "silent (Do c # as) = (\<not> sends_head c \<and> silent as)"


section \<open>Basic facts\<close>

lemma then_do_simps [simp]:
  "then_do (Inl x) f = Inl x"
  "then_do (Inr tr) f = f tr"
  by (simp_all add: then_do_def)

lemma events_simps [simp]:
  "events (Inl (e, tr)) = tr"
  "events (Inr tr) = tr"
  by (simp_all add: events_def)

lemma returned_simps [simp]:
  "returned (Inl x) = False"
  "returned (Inr tr) = True"
  by (simp_all add: returned_def)

lemma head_sent_simps [simp]:
  "head_sent [] = False"
  "head_sent (e # tr) = (head_event e \<or> head_sent tr)"
  "head_sent (xs @ ys) = (head_sent xs \<or> head_sent ys)"
  by (simp_all add: head_sent_def list_ex_append)

lemma called_indices_append [simp]:
  "called_indices (xs @ ys) = called_indices xs @ called_indices ys"
  by (induction xs rule: called_indices.induct) auto

lemma called_indices_calls [simp]: "called_indices (map Call cs) = []"
  by (induction cs) auto

lemma next_calls_simps [simp]:
  "next_calls [] = 0"
  "next_calls (Do c # as) = next_calls as"
  "next_calls (CallNext # as) = Suc (next_calls as)"
  "next_calls (as @ bs) = next_calls as + next_calls bs"
  by (simp_all add: next_calls_def)

lemma next_calls_0: "next_calls as = 0 \<longleftrightarrow> CallNext \<notin> set as"
  by (simp add: next_calls_def count_list_0_iff)

lemma final_runs_simps [simp]:
  "final_runs [] = 0"
  "final_runs (xs @ ys) = final_runs xs + final_runs ys"
  "final_runs (Call c # xs) = final_runs xs"
  "final_runs (MiddlewareCalled j # xs) = final_runs xs"
  "final_runs (CallbackCalled # xs) = final_runs xs"
  "final_runs (FinalCalled # xs) = Suc (final_runs xs)"
  "final_runs (map Call cs) = 0"
  by (simp_all add: final_runs_def count_list_0_iff image_iff)

lemma finalizations_simps [simp]:
  "finalizations [] = 0"
  "finalizations (xs @ ys) = finalizations xs + finalizations ys"
  "finalizations (Call c # xs) = (if is_End c then Suc (finalizations xs) else finalizations xs)"
  "finalizations (MiddlewareCalled j # xs) = finalizations xs"
  "finalizations (CallbackCalled # xs) = finalizations xs"
  "finalizations (FinalCalled # xs) = finalizations xs"
  by (simp_all add: finalizations_def)



text \<open>A single call either returns, and then it is the next event, or throws.\<close>

lemma do_call_cases:
  "do_call c tr = Inr (tr @ [Call c]) \<or> do_call c tr = Inl (ERR_HTTP_HEADERS_SENT, tr)"
  by (cases c) (simp_all add: res_writeHead_def res_end_def console_log_def)

lemma do_call_Inr: "do_call c tr = Inr tr' \<Longrightarrow> tr' = tr @ [Call c]"
  using do_call_cases[of c tr] by auto

lemma do_call_Inl: "do_call c tr = Inl x \<Longrightarrow> x = (ERR_HTTP_HEADERS_SENT, tr)"
  using do_call_cases[of c tr] by auto

lemma do_call_quiet: "\<not> sends_head c \<Longrightarrow> do_call c tr = Inr (tr @ [Call c])"
  by (cases c) (simp_all add: console_log_def)



text \<open>\<open>finalRequestHandler\<close> on a response whose head has not been sent, and on one
  whose head has been sent.\<close>

lemma final_fresh_values:
  "finalRequestHandler req [] =
     (if req_method req \<in> {''GET'', ''POST'', ''PUT'', ''DELETE''}
      then Inr [Call (WriteHead 200 [(''Content-Type'', ''text/plain'')]),
                Call (End (''Received '' @ req_method req @ '' request for '' @ req_url req))]
      else Inr [Call (WriteHead 405 [(''Content-Type'', ''text/plain'')]),
                Call (End (''Method '' @ req_method req @ '' not allowed''))])"
  by (simp add: finalRequestHandler_def res_writeHead_def res_end_def)

lemma final_fresh:
  "\<not> head_sent tr \<Longrightarrow>
   finalRequestHandler req tr = Inr (tr @ events (finalRequestHandler req []))"
  by (simp add: finalRequestHandler_def res_writeHead_def res_end_def Let_def)

lemma final_sent:
  "head_sent tr \<Longrightarrow> finalRequestHandler req tr = Inl (ERR_HTTP_HEADERS_SENT, tr)"
  by (simp add: finalRequestHandler_def res_writeHead_def Let_def)

lemma final_answer_facts [simp]:
  "called_indices (events (finalRequestHandler req [])) = []"
  "final_runs (events (finalRequestHandler req [])) = 0"
  "finalizations (events (finalRequestHandler req [])) = 1"
  "head_sent (events (finalRequestHandler req []))"
  by (simp_all add: final_fresh_values)

lemma final_cases:
  "finalRequestHandler req tr = Inr (tr @ events (finalRequestHandler req []))
   \<or> finalRequestHandler req tr = Inl (ERR_HTTP_HEADERS_SENT, tr)"
  using final_fresh[of tr req] final_sent[of tr req] by blast


section \<open>The middleware chain\<close>

text \<open>Running middleware writes no field of the server object.\<close>

lemma run_this [simp]: "fst (run this req rest i tr) = this"
  by (induction this req rest i tr rule: run.induct) (auto split: sum.splits)

lemma handleRequest_this [simp]: "fst (handleRequest this req tr) = this"
  by (simp add: handleRequest_def split: list.splits)

text \<open>
  A stretch of middleware code without \<open>next()\<close> only adds calls to the events, as far
  as it gets.
\<close>

lemma run_no_next:
  "CallNext \<notin> set rest \<Longrightarrow>
   \<exists>cs. events (snd (run this req rest i tr)) = tr @ map Call cs"
proof (induction rest arbitrary: tr)
  case Nil
  show ?case by (simp add: exI[of _ "[]"])
next
  case (Cons a rest)
  then obtain c where a: "a = Do c" by (cases a) auto
  from do_call_cases[of c tr] show ?case
  proof
    assume r: "do_call c tr = Inr (tr @ [Call c])"
    from Cons obtain cs where
      "events (snd (run this req rest i (tr @ [Call c]))) = (tr @ [Call c]) @ map Call cs"
      by fastforce
    with r a show ?thesis by (intro exI[of _ "c # cs"]) simp
  next
    assume "do_call c tr = Inl (ERR_HTTP_HEADERS_SENT, tr)"
    with a show ?thesis by (intro exI[of _ "[]"]) simp
  qed
qed


lemma silent_until_next_append:
  "silent_until_next as \<Longrightarrow> CallNext \<in> set as \<Longrightarrow> silent_until_next (as @ bs)"
  by (induction as rule: silent_until_next.induct) auto

lemma silent_append [simp]: "silent (as @ bs) = (silent as \<and> silent bs)"
  by (induction as rule: silent.induct) auto


lemma no_head_calls: "\<not> list_ex sends_head cs \<Longrightarrow> \<not> head_sent (map Call cs)"
  by (induction cs) auto

text \<open>
  Whatever the middleware do, the indices entered are \<open>0, 1, \<dots>\<close> without a gap:
  \<open>nextMiddleware\<close> only ever enters the middleware at the index it has just
  incremented to.
\<close>

lemma run_order:
  "called_indices tr = [0..<min (Suc i) (length (middlewares this))] \<Longrightarrow>
   \<exists>k. min (Suc i) (length (middlewares this)) \<le> k \<and> k \<le> length (middlewares this) \<and>
     called_indices (events (snd (run this req rest i tr))) = [0..<k]"
proof (induction this req rest i tr rule: run.induct)
  case (1 this req i tr)
  then show ?case by (intro exI[of _ "min (Suc i) (length (middlewares this))"]) simp
next
  case (2 this req c rest i tr)
  from do_call_cases[of c tr] show ?case
  proof
    assume r: "do_call c tr = Inr (tr @ [Call c])"
    have "called_indices (tr @ [Call c]) = [0..<min (Suc i) (length (middlewares this))]"
      using 2(2) by simp
    from 2(1)[OF r this] r show ?thesis by simp
  next
    assume "do_call c tr = Inl (ERR_HTTP_HEADERS_SENT, tr)"
    with 2(2) show ?thesis
      by (intro exI[of _ "min (Suc i) (length (middlewares this))"]) simp
  qed
next
  case (3 this req rest i tr)
  show ?case
  proof (cases "Suc i < length (middlewares this)")
    case True
    have "called_indices (tr @ [MiddlewareCalled (Suc i)])
            = [0..<min (Suc (Suc i)) (length (middlewares this))]"
      using True 3(3) by (simp add: min_def)
    from 3(1)[OF True this] obtain k where
      "min (Suc (Suc i)) (length (middlewares this)) \<le> k" "k \<le> length (middlewares this)"
      "called_indices (events (snd (run this req ((middlewares this ! Suc i) req @ rest) (Suc i)
          (tr @ [MiddlewareCalled (Suc i)])))) = [0..<k]"
      by blast
    with True show ?thesis by (intro exI[of _ k]) (simp add: min_def)
  next
    case False
    from final_cases[of req "tr @ [FinalCalled]"] show ?thesis
    proof
      assume r: "finalRequestHandler req (tr @ [FinalCalled])
                   = Inr ((tr @ [FinalCalled]) @ events (finalRequestHandler req []))"
      have "called_indices ((tr @ [FinalCalled]) @ events (finalRequestHandler req []))
              = [0..<min (Suc (Suc i)) (length (middlewares this))]"
        using False 3(3) by (simp add: min_def)
      from 3(2)[OF False r this] obtain k where
        "min (Suc (Suc i)) (length (middlewares this)) \<le> k" "k \<le> length (middlewares this)"
        "called_indices (events (snd (run this req rest (Suc i)
            ((tr @ [FinalCalled]) @ events (finalRequestHandler req []))))) = [0..<k]"
        by blast
      with False r show ?thesis by (intro exI[of _ k]) (simp add: min_def)
    next
      assume "finalRequestHandler req (tr @ [FinalCalled])
                = Inl (ERR_HTTP_HEADERS_SENT, tr @ [FinalCalled])"
      with False 3(3) show ?thesis
        by (intro exI[of _ "min (Suc i) (length (middlewares this))"]) simp
    qed
  qed
qed

text \<open>
  The chain up to a middleware \<open>h\<close> that never calls \<open>next()\<close>, when each middleware
  between the current one and \<open>h\<close> calls it once, and the code still to be run holds the
  one call of the current middleware and no other. No middleware behind \<open>h\<close> is entered
  and \<open>finalRequestHandler\<close> is not; \<open>h\<close> itself is reached unless an exception comes
  first.
\<close>

lemma run_halts:
  "h < length (middlewares this) \<Longrightarrow> i \<le> h \<Longrightarrow>
   \<forall>j. i < j \<and> j < h \<longrightarrow> next_calls ((middlewares this ! j) req) = 1 \<Longrightarrow>
   next_calls ((middlewares this ! h) req) = 0 \<Longrightarrow>
   next_calls rest = (if i < h then 1 else 0) \<Longrightarrow>
   \<exists>k. Suc i \<le> k \<and> k \<le> Suc h \<and>
     called_indices (events (snd (run this req rest i tr))) = called_indices tr @ [Suc i..<k] \<and>
     final_runs (events (snd (run this req rest i tr))) = final_runs tr \<and>
     (returned (snd (run this req rest i tr)) \<longrightarrow> k = Suc h) \<and>
     ((\<forall>j. i < j \<and> j < h \<longrightarrow> silent_until_next ((middlewares this ! j) req))
        \<and> (i < h \<longrightarrow> silent_until_next rest) \<longrightarrow> k = Suc h)"
proof (induction this req rest i tr rule: run.induct)
  case (1 this req i tr)
  then have "i = h" by (simp split: if_splits)
  then show ?case by (intro exI[of _ "Suc h"]) simp
next
  case (2 this req c rest i tr)
  from do_call_cases[of c tr] show ?case
  proof
    assume r: "do_call c tr = Inr (tr @ [Call c])"
    from 2(1)[OF r 2(2) 2(3) 2(4) 2(5)] 2(6) obtain k where
      "Suc i \<le> k" "k \<le> Suc h"
      "called_indices (events (snd (run this req rest i (tr @ [Call c]))))
         = called_indices (tr @ [Call c]) @ [Suc i..<k]"
      "final_runs (events (snd (run this req rest i (tr @ [Call c]))))
         = final_runs (tr @ [Call c])"
      "returned (snd (run this req rest i (tr @ [Call c]))) \<longrightarrow> k = Suc h"
      "(\<forall>j. i < j \<and> j < h \<longrightarrow> silent_until_next ((middlewares this ! j) req))
        \<and> (i < h \<longrightarrow> silent_until_next rest) \<longrightarrow> k = Suc h"
      by auto
    with r show ?thesis by (intro exI[of _ k]) simp
  next
    assume r: "do_call c tr = Inl (ERR_HTTP_HEADERS_SENT, tr)"
    then have "sends_head c" using do_call_quiet[of c tr] by auto
    with r 2(3) show ?thesis
      by (intro exI[of _ "Suc i"]) auto
  qed
next
  case (3 this req rest i tr)
  from 3(7) have ih: "i < h" and r0: "next_calls rest = 0"
    by (simp_all split: if_splits)
  then have lt: "Suc i < length (middlewares this)" using 3(3) by simp
  let ?m = "(middlewares this ! Suc i) req"
  have nc: "next_calls (?m @ rest) = (if Suc i < h then 1 else 0)"
  proof (cases "Suc i < h")
    case True
    with 3(5) ih r0 show ?thesis by simp
  next
    case False
    with ih have "Suc i = h" by simp
    with 3(6) r0 False show ?thesis by simp
  qed
  have le: "Suc i \<le> h" using ih by simp
  have once: "\<forall>j. Suc i < j \<and> j < h \<longrightarrow> next_calls ((middlewares this ! j) req) = 1"
    using 3(5) by simp
  from 3(1)[OF lt 3(3) le once 3(6) nc] obtain k where k:
    "Suc (Suc i) \<le> k" "k \<le> Suc h"
    "called_indices (events (snd (run this req (?m @ rest) (Suc i) (tr @ [MiddlewareCalled (Suc i)]))))
       = called_indices (tr @ [MiddlewareCalled (Suc i)]) @ [Suc (Suc i)..<k]"
    "final_runs (events (snd (run this req (?m @ rest) (Suc i) (tr @ [MiddlewareCalled (Suc i)]))))
       = final_runs (tr @ [MiddlewareCalled (Suc i)])"
    "returned (snd (run this req (?m @ rest) (Suc i) (tr @ [MiddlewareCalled (Suc i)])))
       \<longrightarrow> k = Suc h"
    "(\<forall>j. Suc i < j \<and> j < h \<longrightarrow> silent_until_next ((middlewares this ! j) req))
        \<and> (Suc i < h \<longrightarrow> silent_until_next (?m @ rest)) \<longrightarrow> k = Suc h"
    by blast
  have sil: "(\<forall>j. i < j \<and> j < h \<longrightarrow> silent_until_next ((middlewares this ! j) req))
               \<longrightarrow> k = Suc h"
  proof
    assume a: "\<forall>j. i < j \<and> j < h \<longrightarrow> silent_until_next ((middlewares this ! j) req)"
    have "Suc i < h \<longrightarrow> silent_until_next (?m @ rest)"
    proof
      assume s: "Suc i < h"
      with a have "silent_until_next ?m" by simp
      moreover from s 3(5) have "next_calls ?m = 1" by simp
      then have "CallNext \<in> set ?m" using next_calls_0[of ?m] by auto
      ultimately show "silent_until_next (?m @ rest)" by (rule silent_until_next_append)
    qed
    with a k(6) show "k = Suc h" by simp
  qed
  from k sil lt show ?case
    by (intro exI[of _ k]) (simp add: upt_conv_Cons)
qed

text \<open>
  The chain when every middleware from the current one on calls \<open>next()\<close> once and
  sends nothing of the response before that call, on a response whose head has not been
  sent: the remaining middleware are entered in order, then \<open>finalRequestHandler\<close>
  once, which writes its answer; what follows is the code of the middleware after their
  \<open>next()\<close>, as far as it gets.
\<close>

lemma run_completes:
  "i < length (middlewares this) \<Longrightarrow>
   \<forall>j. i < j \<and> j < length (middlewares this) \<longrightarrow>
       next_calls ((middlewares this ! j) req) = 1
       \<and> silent_until_next ((middlewares this ! j) req) \<Longrightarrow>
   next_calls rest = 1 \<Longrightarrow> silent_until_next rest \<Longrightarrow> \<not> head_sent tr \<Longrightarrow>
   \<exists>pre post. events (snd (run this req rest i tr))
        = tr @ pre @ FinalCalled # events (finalRequestHandler req []) @ post
      \<and> final_runs pre = 0 \<and> final_runs post = 0
      \<and> called_indices pre = [Suc i..<length (middlewares this)] \<and> called_indices post = []"
proof (induction this req rest i tr rule: run.induct)
  case (1 this req i tr)
  then show ?case by simp
next
  case (2 this req c rest i tr)
  from 2(5) have q: "\<not> sends_head c" and s: "silent_until_next rest" by simp_all
  from q have r: "do_call c tr = Inr (tr @ [Call c])" by (rule do_call_quiet)
  have hs: "\<not> head_sent (tr @ [Call c])" using 2(6) q by simp
  from 2(4) have nc: "next_calls rest = 1" by simp
  from 2(1)[OF r 2(2) 2(3) nc s hs] obtain pre post where
    "events (snd (run this req rest i (tr @ [Call c])))
       = (tr @ [Call c]) @ pre @ FinalCalled # events (finalRequestHandler req []) @ post"
    "final_runs pre = 0" "final_runs post = 0"
    "called_indices pre = [Suc i..<length (middlewares this)]" "called_indices post = []"
    by blast
  with r show ?case
    by (intro exI[of _ "Call c # pre"] exI[of _ post]) simp
next
  case (3 this req rest i tr)
  from 3(5) have r0: "next_calls rest = 0" by simp
  let ?m = "(middlewares this ! Suc i) req"
  show ?case
  proof (cases "Suc i < length (middlewares this)")
    case True
    with 3(4) have m1: "next_calls ?m = 1" and ms: "silent_until_next ?m" by simp_all
    have nc: "next_calls (?m @ rest) = 1" using m1 r0 by simp
    from m1 have "CallNext \<in> set ?m" using next_calls_0[of ?m] by auto
    with ms have s: "silent_until_next (?m @ rest)" by (rule silent_until_next_append)
    have later: "\<forall>j. Suc i < j \<and> j < length (middlewares this) \<longrightarrow>
       next_calls ((middlewares this ! j) req) = 1
       \<and> silent_until_next ((middlewares this ! j) req)"
      using 3(4) by simp
    have hs: "\<not> head_sent (tr @ [MiddlewareCalled (Suc i)])" using 3(7) by simp
    from 3(1)[OF True True later nc s hs] obtain pre post where
      "events (snd (run this req (?m @ rest) (Suc i) (tr @ [MiddlewareCalled (Suc i)])))
         = (tr @ [MiddlewareCalled (Suc i)]) @ pre
            @ FinalCalled # events (finalRequestHandler req []) @ post"
      "final_runs pre = 0" "final_runs post = 0"
      "called_indices pre = [Suc (Suc i)..<length (middlewares this)]" "called_indices post = []"
      by blast
    with True show ?thesis
      by (intro exI[of _ "MiddlewareCalled (Suc i) # pre"] exI[of _ post])
         (simp add: upt_conv_Cons)
  next
    case False
    with 3(3) have eq: "Suc i = length (middlewares this)" by simp
    have "\<not> head_sent (tr @ [FinalCalled])" using 3(7) by simp
    then have f: "finalRequestHandler req (tr @ [FinalCalled])
        = Inr ((tr @ [FinalCalled]) @ events (finalRequestHandler req []))"
      by (rule final_fresh)
    from r0 have "CallNext \<notin> set rest" by (simp add: next_calls_0)
    from run_no_next[OF this] obtain cs where
      "events (snd (run this req rest (Suc i)
          ((tr @ [FinalCalled]) @ events (finalRequestHandler req []))))
        = ((tr @ [FinalCalled]) @ events (finalRequestHandler req [])) @ map Call cs"
      by blast
    with False eq f show ?thesis
      by (intro exI[of _ "[]"] exI[of _ "map Call cs"]) simp
  qed
qed



text \<open>
  The chain when every middleware from the current one on calls \<open>next()\<close> once and no
  exception is thrown: all remaining middleware are entered.
\<close>

lemma run_returned_all:
  "i < length (middlewares this) \<Longrightarrow>
   \<forall>j. i < j \<and> j < length (middlewares this) \<longrightarrow>
       next_calls ((middlewares this ! j) req) = 1 \<Longrightarrow>
   next_calls rest = 1 \<Longrightarrow> returned (snd (run this req rest i tr)) \<Longrightarrow>
   called_indices (events (snd (run this req rest i tr)))
     = called_indices tr @ [Suc i..<length (middlewares this)]"
proof (induction this req rest i tr rule: run.induct)
  case (1 this req i tr)
  then show ?case by simp
next
  case (2 this req c rest i tr)
  from do_call_cases[of c tr] show ?case
  proof
    assume r: "do_call c tr = Inr (tr @ [Call c])"
    from 2(4) have nc: "next_calls rest = 1" by simp
    from 2(5) r have "returned (snd (run this req rest i (tr @ [Call c])))" by simp
    from 2(1)[OF r 2(2) 2(3) nc this] r show ?thesis by simp
  next
    assume "do_call c tr = Inl (ERR_HTTP_HEADERS_SENT, tr)"
    with 2(5) show ?thesis by simp
  qed
next
  case (3 this req rest i tr)
  from 3(5) have r0: "next_calls rest = 0" by simp
  let ?m = "(middlewares this ! Suc i) req"
  show ?case
  proof (cases "Suc i < length (middlewares this)")
    case True
    with 3(4) have m1: "next_calls ?m = 1" by simp
    have nc: "next_calls (?m @ rest) = 1" using m1 r0 by simp
    have later: "\<forall>j. Suc i < j \<and> j < length (middlewares this) \<longrightarrow>
       next_calls ((middlewares this ! j) req) = 1"
      using 3(4) by simp
    from 3(6) True have "returned (snd (run this req (?m @ rest) (Suc i)
        (tr @ [MiddlewareCalled (Suc i)])))" by simp
    from 3(1)[OF True True later nc this] True show ?thesis
      by (simp add: upt_conv_Cons)
  next
    case False
    with 3(3) have eq: "Suc i = length (middlewares this)" by simp
    from final_cases[of req "tr @ [FinalCalled]"] show ?thesis
    proof
      assume f: "finalRequestHandler req (tr @ [FinalCalled])
        = Inr ((tr @ [FinalCalled]) @ events (finalRequestHandler req []))"
      from r0 have "CallNext \<notin> set rest" by (simp add: next_calls_0)
      from run_no_next[OF this] obtain cs where
        "events (snd (run this req rest (Suc i)
            ((tr @ [FinalCalled]) @ events (finalRequestHandler req []))))
          = ((tr @ [FinalCalled]) @ events (finalRequestHandler req [])) @ map Call cs"
        by blast
      with False eq f show ?thesis by simp
    next
      assume "finalRequestHandler req (tr @ [FinalCalled])
                = Inl (ERR_HTTP_HEADERS_SENT, tr @ [FinalCalled])"
      with 3(6) False show ?thesis by simp
    qed
  qed
qed

section \<open>\<open>handleRequest\<close>\<close>

lemma handleRequest_in_order:
  assumes "middlewares this \<noteq> []"
  shows "\<exists>k. 1 \<le> k \<and> k \<le> length (middlewares this) \<and>
           called_indices (events (snd (handleRequest this req []))) = [0..<k]"
proof -
  from assms obtain m ms where mws: "middlewares this = m # ms"
    by (cases "middlewares this") auto
  have hr: "handleRequest this req [] = run this req (m req) 0 [MiddlewareCalled 0]"
    by (simp add: handleRequest_def mws)
  have "called_indices [MiddlewareCalled 0] = [0..<min (Suc 0) (length (middlewares this))]"
    by (simp add: mws)
  from run_order[OF this, of req "m req"] obtain k where
    "min (Suc 0) (length (middlewares this)) \<le> k" "k \<le> length (middlewares this)"
    "called_indices (events (snd (run this req (m req) 0 [MiddlewareCalled 0]))) = [0..<k]"
    by blast
  with hr mws show ?thesis by (intro exI[of _ k]) simp
qed

lemma handleRequest_halts:
  assumes h: "h < length (middlewares this)"
    and once: "\<forall>j<h. next_calls ((middlewares this ! j) req) = 1"
    and none: "next_calls ((middlewares this ! h) req) = 0"
  shows "\<exists>k. k \<le> Suc h \<and>
           called_indices (events (snd (handleRequest this req []))) = [0..<k] \<and>
           final_runs (events (snd (handleRequest this req []))) = 0 \<and>
           (returned (snd (handleRequest this req []))
              \<or> (\<forall>j<h. silent_until_next ((middlewares this ! j) req)) \<longrightarrow> k = Suc h)"
proof -
  from h obtain m ms where mws: "middlewares this = m # ms"
    by (cases "middlewares this") auto
  let ?R = "snd (run this req (m req) 0 [MiddlewareCalled 0])"
  have hr: "handleRequest this req [] = run this req (m req) 0 [MiddlewareCalled 0]"
    by (simp add: handleRequest_def mws)
  have m0: "m = middlewares this ! 0" by (simp add: mws)
  have nc: "next_calls (m req) = (if 0 < h then 1 else 0)"
    using once none m0 by (cases "h = 0") auto
  have once': "\<forall>j. 0 < j \<and> j < h \<longrightarrow> next_calls ((middlewares this ! j) req) = 1"
    using once by simp
  from run_halts[OF h _ once' none nc, of "[MiddlewareCalled 0]"] obtain k where k:
    "Suc 0 \<le> k" "k \<le> Suc h"
    "called_indices (events ?R) = called_indices [MiddlewareCalled 0] @ [Suc 0..<k]"
    "final_runs (events ?R) = final_runs [MiddlewareCalled 0]"
    "returned ?R \<longrightarrow> k = Suc h"
    "(\<forall>j. 0 < j \<and> j < h \<longrightarrow> silent_until_next ((middlewares this ! j) req))
        \<and> (0 < h \<longrightarrow> silent_until_next (m req)) \<longrightarrow> k = Suc h"
    by auto
  have "(\<forall>j<h. silent_until_next ((middlewares this ! j) req)) \<longrightarrow> k = Suc h"
    using k(6) m0 by auto
  with k hr show ?thesis
    by (intro exI[of _ k]) (auto simp add: upt_conv_Cons)
qed

lemma handleRequest_completes:
  assumes ne: "middlewares this \<noteq> []"
    and once: "\<forall>m \<in> set (middlewares this). next_calls (m req) = 1 \<and> silent_until_next (m req)"
  shows "\<exists>pre post. events (snd (handleRequest this req []))
             = pre @ FinalCalled # events (finalRequestHandler req []) @ post
           \<and> final_runs pre = 0 \<and> final_runs post = 0
           \<and> called_indices (pre @ post) = [0..<length (middlewares this)]"
proof -
  from ne obtain m ms where mws: "middlewares this = m # ms"
    by (cases "middlewares this") auto
  let ?R = "snd (run this req (m req) 0 [MiddlewareCalled 0])"
  have hr: "handleRequest this req [] = run this req (m req) 0 [MiddlewareCalled 0]"
    by (simp add: handleRequest_def mws)
  have a: "0 < length (middlewares this)" by (simp add: mws)
  have b: "\<forall>j. 0 < j \<and> j < length (middlewares this)
             \<longrightarrow> next_calls ((middlewares this ! j) req) = 1
               \<and> silent_until_next ((middlewares this ! j) req)"
    using once by simp
  have c: "next_calls (m req) = 1" "silent_until_next (m req)" using once by (simp_all add: mws)
  have d: "\<not> head_sent [MiddlewareCalled 0]" by simp
  from run_completes[OF a b c d] obtain pre post where
    r: "events ?R = [MiddlewareCalled 0] @ pre
          @ FinalCalled # events (finalRequestHandler req []) @ post"
    and p: "final_runs pre = 0" "final_runs post = 0"
       "called_indices pre = [Suc 0..<length (middlewares this)]" "called_indices post = []"
    by blast
  show ?thesis
    using hr r p a
    by (intro exI[of _ "MiddlewareCalled 0 # pre"] exI[of _ post]) (simp add: upt_conv_Cons)
qed

lemma handleRequest_returned_all:
  assumes ne: "middlewares this \<noteq> []"
    and once: "\<forall>m \<in> set (middlewares this). next_calls (m req) = 1"
    and ret: "returned (snd (handleRequest this req []))"
  shows "called_indices (events (snd (handleRequest this req [])))
           = [0..<length (middlewares this)]"
proof -
  from ne obtain m ms where mws: "middlewares this = m # ms"
    by (cases "middlewares this") auto
  have hr: "handleRequest this req [] = run this req (m req) 0 [MiddlewareCalled 0]"
    by (simp add: handleRequest_def mws)
  have a: "0 < length (middlewares this)" by (simp add: mws)
  have b: "\<forall>j. 0 < j \<and> j < length (middlewares this)
             \<longrightarrow> next_calls ((middlewares this ! j) req) = 1"
    using once by simp
  have c: "next_calls (m req) = 1" using once by (simp add: mws)
  from ret hr have d: "returned (snd (run this req (m req) 0 [MiddlewareCalled 0]))" by simp
  from run_returned_all[OF a b c d] hr a show ?thesis by (simp add: upt_conv_Cons)
qed



section \<open>Emitting a request\<close>

text \<open>
  What running the middleware does depends on the server object only through
  \<open>this.middlewares\<close>.
\<close>

lemma run_cong:
  "middlewares b = middlewares a \<Longrightarrow>
   snd (run b req rest i tr) = snd (run a req rest i tr)"
  by (induction a req rest i tr rule: run.induct) (auto split: sum.splits)

lemma call_listener_this [simp]: "fst (call_listener this req l tr) = this"
  by (cases l) (simp_all add: call_listener_def)

lemma call_listener_cong:
  "middlewares b = middlewares a \<Longrightarrow>
   snd (call_listener b req l tr) = snd (call_listener a req l tr)"
  by (cases l) (auto simp add: call_listener_def handleRequest_def run_cong split: list.splits)

lemma emit_step:
  "emit_request this req (l # ls) tr =
     (case snd (call_listener this req l tr) of
        Inl x \<Rightarrow> (this, Inl x)
      | Inr tr' \<Rightarrow> emit_request this req ls tr')"
proof -
  obtain out where "call_listener this req l tr = (this, out)"
    using call_listener_this[of this req l tr] by (cases "call_listener this req l tr") auto
  then show ?thesis by (simp split: sum.splits)
qed

lemma emit_this [simp]: "fst (emit_request this req ls tr) = this"
  by (induction ls arbitrary: tr) (simp_all add: emit_step del: emit_request.simps(2) split: sum.splits)


lemma emit_cong:
  "middlewares b = middlewares a \<Longrightarrow>
   snd (emit_request b req ls tr) = snd (emit_request a req ls tr)"
proof (induction ls arbitrary: tr)
  case Nil
  show ?case by simp
next
  case (Cons l ls)
  from Cons.prems have "snd (call_listener b req l tr) = snd (call_listener a req l tr)"
    by (rule call_listener_cong)
  with Cons show ?case
    by (simp add: emit_step del: emit_request.simps(2) split: sum.splits)
qed

lemma emit_append:
  "snd (emit_request this req (ls @ [l]) tr) =
     (case snd (emit_request this req ls tr) of
        Inl x \<Rightarrow> Inl x
      | Inr tr' \<Rightarrow> snd (call_listener this req l tr'))"
proof (induction ls arbitrary: tr)
  case Nil
  show ?case by (simp add: emit_step del: emit_request.simps(2) split: sum.splits)
next
  case (Cons a ls)
  then show ?case
    by (simp add: emit_step del: emit_request.simps(2) split: sum.splits)
qed

section \<open>The final request handler: claim C7\<close>



section \<open>Route registrations: claims C3, C4 and C10\<close>

text \<open>
  Claim C3 says that after \<open>get("/ilia", h)\<close> the request \<open>POST /ilia\<close> is answered by
  that registration with status 405 and the body \<open>Method POST not allowed\<close>. The status
  is 405, but the listener builds the body from the method it was registered with, not
  from the method of the request: the body is \<open>Method GET not allowed\<close>.
\<close>

theorem get_405_names_registered_method:
  "snd (call_listener this \<lparr>req_method = ''POST'', req_url = ''/ilia''\<rparr>
     (last (request_listeners (get ''/ilia'' h this))) []) =
   Inr [Call (WriteHead 405 [(''Content-Type'', ''text/plain'')]),
        Call (End ''Method GET not allowed'')]"
  by (simp add: get_def registerHandler_def call_listener_def route_listener_def
      res_writeHead_def res_end_def)

lemma serve_get:
  "snd (serve (get route h this) req) =
     (case snd (serve this req) of
        Inl x \<Rightarrow> Inl x
      | Inr tr0 \<Rightarrow> route_listener ''GET'' route h req tr0)"
proof -
  have m: "middlewares (get route h this) = middlewares this"
    by (simp add: get_def registerHandler_def)
  have "snd (serve (get route h this) req) =
      snd (emit_request (get route h this) req
             (request_listeners this @ [RouteListener ''GET'' route h]) [])"
    by (simp add: serve_def get_def registerHandler_def)
  also have "\<dots> = (case snd (emit_request (get route h this) req (request_listeners this) []) of
        Inl x \<Rightarrow> Inl x
      | Inr tr0 \<Rightarrow> snd (call_listener (get route h this) req (RouteListener ''GET'' route h) tr0))"
    by (rule emit_append)
  also have "snd (emit_request (get route h this) req (request_listeners this) [])
      = snd (serve this req)"
    using emit_cong[OF m] by (simp add: serve_def)
  finally show ?thesis by (simp add: call_listener_def split: sum.splits)
qed

text \<open>
  Claim C4 says that after \<open>get("/ilia", h)\<close> the request \<open>GET /ilia\<close> invokes \<open>h\<close> and
  \<open>GET /other\<close> gets status 404 with the body \<open>Not found\<close>. The listener that \<open>get\<close>
  subscribes is called after \<open>handleRequest\<close> and after the listeners of the routes
  registered before it, and only if none of them has thrown. The claim as amended:
  for a GET request, if serving it on the server as it was before the registration
  throws, the same exception leaves the request and \<open>h\<close> is not entered; if it returns,
  then the new listener enters \<open>h\<close> when the URL is exactly the route, and otherwise
  answers 404, \<open>Content-Type: text/plain\<close>, \<open>Not found\<close>, provided the head of the
  response has not been sent yet (its \<open>writeHead\<close> throws if it has).
\<close>

theorem get_serves_or_404:
  "req_method req = ''GET'' \<Longrightarrow>
   snd (serve (get route h this) req) =
     (case snd (serve this req) of
        Inl x \<Rightarrow> Inl x
      | Inr tr0 \<Rightarrow>
          if req_url req = route then do_calls (h req) (tr0 @ [CallbackCalled])
          else if head_sent tr0 then Inl (ERR_HTTP_HEADERS_SENT, tr0)
          else Inr (tr0 @ [Call (WriteHead 404 [(''Content-Type'', ''text/plain'')]),
                           Call (End ''Not found'')]))"
  by (simp add: serve_get route_listener_def res_writeHead_def res_end_def split: sum.splits)

text \<open>
  The example program: behind its middleware, which logs and halts, \<open>GET /ilia\<close> enters
  the callback, which ends the response with \<open>zd\<close>, and \<open>GET /other\<close> gets the 404
  answer.
\<close>

theorem get_serves_or_404_witness:
  "snd (serve index_server \<lparr>req_method = ''GET'', req_url = ''/ilia''\<rparr>) =
     Inr [MiddlewareCalled 0, Call (ConsoleLog ''Middleware called''),
          CallbackCalled, Call (End ''zd'')] \<and>
   snd (serve index_server \<lparr>req_method = ''GET'', req_url = ''/other''\<rparr>) =
     Inr [MiddlewareCalled 0, Call (ConsoleLog ''Middleware called''),
          Call (WriteHead 404 [(''Content-Type'', ''text/plain'')]), Call (End ''Not found'')]"
proof -
  let ?s = "use (\<lambda>req. [Do (ConsoleLog ''Middleware called'')]) new_HttpServer"
  have s: "\<And>q. snd (serve ?s q) = Inr [MiddlewareCalled 0, Call (ConsoleLog ''Middleware called'')]"
    by (simp add: serve_def use_def new_HttpServer_def call_listener_def handleRequest_def
        console_log_def)
  from get_serves_or_404[of "\<lparr>req_method = ''GET'', req_url = ''/ilia''\<rparr>" "''/ilia''"
         "\<lambda>req. [End ''zd'']" ?s]
       get_serves_or_404[of "\<lparr>req_method = ''GET'', req_url = ''/other''\<rparr>" "''/ilia''"
         "\<lambda>req. [End ''zd'']" ?s]
  show ?thesis
    by (simp add: index_server_def s res_end_def)
qed

text \<open>
  The claim as stated fails in two ways. With the route registered and no middleware,
  \<open>GET /ilia\<close> ends in the \<open>TypeError\<close> of \<open>handleRequest\<close> and the callback is never
  entered. With a middleware that continues, \<open>GET /other\<close> is answered by
  \<open>finalRequestHandler\<close>, and the \<open>writeHead(404)\<close> of the route listener throws.
\<close>

theorem get_serves_or_404_counterexample:
  "snd (serve (get ''/ilia'' (\<lambda>req. [End ''zd'']) new_HttpServer)
         \<lparr>req_method = ''GET'', req_url = ''/ilia''\<rparr>) = Inl (TypeError, []) \<and>
   snd (serve (get ''/ilia'' (\<lambda>req. [End ''zd'']) (use (\<lambda>req. [CallNext]) new_HttpServer))
         \<lparr>req_method = ''GET'', req_url = ''/other''\<rparr>) =
     Inl (ERR_HTTP_HEADERS_SENT,
          [MiddlewareCalled 0, FinalCalled,
           Call (WriteHead 200 [(''Content-Type'', ''text/plain'')]),
           Call (End ''Received GET request for /other'')])"
  by (simp add: serve_def get_def registerHandler_def use_def new_HttpServer_def
      call_listener_def handleRequest_def route_listener_def finalRequestHandler_def
      res_writeHead_def res_end_def)



section \<open>Dispatch with no middleware: claim C6\<close>

text \<open>
  Claim C6. When no middleware is registered, \<open>handleRequest\<close> throws a \<open>TypeError\<close>
  from calling the missing \<open>this.middlewares[0]\<close>, before anything is done; it does not
  go on to \<open>finalRequestHandler\<close>. Since \<open>handleRequest\<close> is the first listener of the
  \<open>request\<close> event, serving the request ends with that exception, whatever routes are
  registered.
\<close>

theorem empty_middlewares_TypeError:
  "middlewares this = [] \<Longrightarrow>
   snd (handleRequest this req tr) = Inl (TypeError, tr) \<and>
   (\<forall>ls. request_listeners this = HandleRequest # ls \<longrightarrow>
      snd (serve this req) = Inl (TypeError, []))"
  by (simp add: handleRequest_def serve_def call_listener_def)

text \<open>A server with the route of the example program and no middleware.\<close>

theorem empty_middlewares_TypeError_witness:
  "middlewares (get ''/ilia'' (\<lambda>req. [End ''zd'']) new_HttpServer) = [] \<and>
   snd (handleRequest (get ''/ilia'' (\<lambda>req. [End ''zd'']) new_HttpServer)
       \<lparr>req_method = ''GET'', req_url = ''/ilia''\<rparr> []) = Inl (TypeError, []) \<and>
   snd (serve (get ''/ilia'' (\<lambda>req. [End ''zd'']) new_HttpServer)
       \<lparr>req_method = ''GET'', req_url = ''/ilia''\<rparr>) = Inl (TypeError, [])"
proof -
  have m: "middlewares (get ''/ilia'' (\<lambda>req. [End ''zd'']) new_HttpServer) = []"
    by (simp add: get_def registerHandler_def new_HttpServer_def)
  have l: "request_listeners (get ''/ilia'' (\<lambda>req. [End ''zd'']) new_HttpServer)
             = HandleRequest # [RouteListener ''GET'' ''/ilia'' (\<lambda>req. [End ''zd''])]"
    by (simp add: get_def registerHandler_def new_HttpServer_def)
  from empty_middlewares_TypeError [OF m, of "\<lparr>req_method = ''GET'', req_url = ''/ilia''\<rparr>" "[]"] m l
  show ?thesis by blast
qed

section \<open>Order and halting of the middleware chain: claim C1\<close>

text \<open>
  Claim C1 says that for every middleware sequence the dispatcher enters the middleware
  in registration order from index 0 and stops at the first one that does not call its
  continuation. The first half holds as stated; the second does not when a middleware
  entered earlier calls \<open>next()\<close> a second time, because every call of \<open>next()\<close>
  advances the one shared index. The claim as amended: on a server with at least one
  middleware,
  \<^item> the middleware entered are those at the indices \<open>0, 1, \<dots>, k - 1\<close>, in this order
    and each once, for some \<open>k\<close> between 1 and the number of middleware;
  \<^item> if the middleware at index \<open>h\<close> does not call its continuation and every
    middleware before it calls its continuation exactly once, then no middleware behind
    \<open>h\<close> is entered and \<open>finalRequestHandler\<close> is not; the middleware entered are
    exactly those at \<open>0, \<dots>, h\<close> when the request is handled without an exception, and
    also when no middleware before \<open>h\<close> writes the head or ends the response before
    calling its continuation (an exception thrown earlier cuts the chain short);
  \<^item> if every middleware calls its continuation exactly once, all of them are entered,
    under the same two conditions.
\<close>

theorem middleware_order_and_halt:
  "middlewares this \<noteq> [] \<Longrightarrow>
   (\<exists>k. 1 \<le> k \<and> k \<le> length (middlewares this) \<and>
      called_indices (events (snd (handleRequest this req []))) = [0..<k]) \<and>
   (\<forall>h. h < length (middlewares this)
        \<and> (\<forall>j<h. next_calls ((middlewares this ! j) req) = 1)
        \<and> next_calls ((middlewares this ! h) req) = 0 \<longrightarrow>
      (\<exists>k. k \<le> Suc h \<and>
         called_indices (events (snd (handleRequest this req []))) = [0..<k] \<and>
         final_runs (events (snd (handleRequest this req []))) = 0 \<and>
         (returned (snd (handleRequest this req []))
            \<or> (\<forall>j<h. silent_until_next ((middlewares this ! j) req)) \<longrightarrow> k = Suc h))) \<and>
   ((\<forall>m \<in> set (middlewares this). next_calls (m req) = 1)
      \<and> (returned (snd (handleRequest this req []))
           \<or> (\<forall>m \<in> set (middlewares this). silent_until_next (m req))) \<longrightarrow>
      called_indices (events (snd (handleRequest this req [])))
        = [0..<length (middlewares this)])"
proof (intro conjI allI impI)
  assume "middlewares this \<noteq> []"
  then show "\<exists>k. 1 \<le> k \<and> k \<le> length (middlewares this) \<and>
      called_indices (events (snd (handleRequest this req []))) = [0..<k]"
    by (rule handleRequest_in_order)
next
  fix h
  assume "h < length (middlewares this)
        \<and> (\<forall>j<h. next_calls ((middlewares this ! j) req) = 1)
        \<and> next_calls ((middlewares this ! h) req) = 0"
  then show "\<exists>k. k \<le> Suc h \<and>
         called_indices (events (snd (handleRequest this req []))) = [0..<k] \<and>
         final_runs (events (snd (handleRequest this req []))) = 0 \<and>
         (returned (snd (handleRequest this req []))
            \<or> (\<forall>j<h. silent_until_next ((middlewares this ! j) req)) \<longrightarrow> k = Suc h)"
    using handleRequest_halts[of h this req] by blast
next
  assume ne: "middlewares this \<noteq> []"
  assume a: "(\<forall>m \<in> set (middlewares this). next_calls (m req) = 1)
      \<and> (returned (snd (handleRequest this req []))
           \<or> (\<forall>m \<in> set (middlewares this). silent_until_next (m req)))"
  then have once: "\<forall>m \<in> set (middlewares this). next_calls (m req) = 1" by blast
  from a show "called_indices (events (snd (handleRequest this req [])))
        = [0..<length (middlewares this)]"
  proof (elim conjE disjE)
    assume "returned (snd (handleRequest this req []))"
    with ne once show ?thesis by (rule handleRequest_returned_all)
  next
    assume "\<forall>m \<in> set (middlewares this). silent_until_next (m req)"
    with once have "\<forall>m \<in> set (middlewares this).
        next_calls (m req) = 1 \<and> silent_until_next (m req)" by blast
    from handleRequest_completes[OF ne this] obtain pre post where
      "events (snd (handleRequest this req []))
         = pre @ FinalCalled # events (finalRequestHandler req []) @ post"
      "called_indices (pre @ post) = [0..<length (middlewares this)]"
      by blast
    then show ?thesis by simp
  qed
qed

text \<open>
  Three middleware: the first logs and continues, the second logs and returns, the third
  would continue. The chain stops at the second.
\<close>

theorem middleware_order_and_halt_witness:
  "snd (handleRequest
     (use (\<lambda>req. [CallNext])
       (use (\<lambda>req. [Do (ConsoleLog ''second'')])
         (use (\<lambda>req. [Do (ConsoleLog ''first''), CallNext]) new_HttpServer)))
     \<lparr>req_method = ''GET'', req_url = ''/ilia''\<rparr> []) =
   Inr [MiddlewareCalled 0, Call (ConsoleLog ''first''),
        MiddlewareCalled 1, Call (ConsoleLog ''second'')] \<and>
   (\<exists>k. k \<le> Suc 1 \<and> k = Suc 1 \<and>
     called_indices (events (snd (handleRequest
       (use (\<lambda>req. [CallNext])
         (use (\<lambda>req. [Do (ConsoleLog ''second'')])
           (use (\<lambda>req. [Do (ConsoleLog ''first''), CallNext]) new_HttpServer)))
       \<lparr>req_method = ''GET'', req_url = ''/ilia''\<rparr> []))) = [0..<k] \<and>
     final_runs (events (snd (handleRequest
       (use (\<lambda>req. [CallNext])
         (use (\<lambda>req. [Do (ConsoleLog ''second'')])
           (use (\<lambda>req. [Do (ConsoleLog ''first''), CallNext]) new_HttpServer)))
       \<lparr>req_method = ''GET'', req_url = ''/ilia''\<rparr> []))) = 0)"
proof -
  let ?s = "use (\<lambda>req. [CallNext])
       (use (\<lambda>req. [Do (ConsoleLog ''second'')])
         (use (\<lambda>req. [Do (ConsoleLog ''first''), CallNext]) new_HttpServer))"
  let ?q = "\<lparr>req_method = ''GET'', req_url = ''/ilia''\<rparr>"
  have m: "middlewares ?s = [\<lambda>req. [Do (ConsoleLog ''first''), CallNext],
             \<lambda>req. [Do (ConsoleLog ''second'')], \<lambda>req. [CallNext]]"
    by (simp add: use_def new_HttpServer_def)
  have ne: "middlewares ?s \<noteq> []" by (simp add: m)
  have hyp: "1 < length (middlewares ?s)
        \<and> (\<forall>j<1. next_calls ((middlewares ?s ! j) ?q) = 1)
        \<and> next_calls ((middlewares ?s ! 1) ?q) = 0"
    by (simp add: m)
  have sil: "\<forall>j<1. silent_until_next ((middlewares ?s ! j) ?q)"
    by (simp add: m)
  have tr: "snd (handleRequest ?s ?q []) =
     Inr [MiddlewareCalled 0, Call (ConsoleLog ''first''),
          MiddlewareCalled 1, Call (ConsoleLog ''second'')]"
    by (simp add: handleRequest_def m console_log_def)
  from middleware_order_and_halt[OF ne, of ?q] hyp sil
  have "\<exists>k. k \<le> Suc 1 \<and> k = Suc 1 \<and>
          called_indices (events (snd (handleRequest ?s ?q []))) = [0..<k] \<and>
          final_runs (events (snd (handleRequest ?s ?q []))) = 0"
    by blast
  with tr show ?thesis by blast
qed

text \<open>
  The claim as stated fails here: the second middleware does not call its continuation,
  the first calls it twice, and the third middleware is entered after the second has
  returned.
\<close>

theorem middleware_halt_counterexample:
  "next_calls [Do (ConsoleLog ''second'')] = 0 \<and>
   snd (handleRequest
     (use (\<lambda>req. [Do (ConsoleLog ''third'')])
       (use (\<lambda>req. [Do (ConsoleLog ''second'')])
         (use (\<lambda>req. [CallNext, CallNext]) new_HttpServer)))
     \<lparr>req_method = ''GET'', req_url = ''/ilia''\<rparr> []) =
   Inr [MiddlewareCalled 0, MiddlewareCalled 1, Call (ConsoleLog ''second''),
        MiddlewareCalled 2, Call (ConsoleLog ''third'')]"
  by (simp add: handleRequest_def use_def new_HttpServer_def console_log_def)

section \<open>The chain that runs to its end: claim C2\<close>

text \<open>
  Claim C2 says that whenever every registered middleware calls its continuation,
  \<open>finalRequestHandler\<close> runs exactly once and, for the methods GET, POST, PUT and
  DELETE, writes status 200, \<open>Content-Type: text/plain\<close> and the body
  \<open>Received <METHOD> request for <URL>\<close>. This fails when no middleware is registered
  (nothing runs), when a middleware calls its continuation more than once (the handler
  is entered again), and when a middleware has written the head or ended the response
  before it continues (the \<open>writeHead\<close> of the handler throws). The claim as amended:
  on a server with at least one middleware, if every middleware calls its continuation
  exactly once and neither writes the head nor ends the response before that call, then
  \<open>finalRequestHandler\<close> is entered exactly once, and for those four methods the two
  calls made right where it is entered are the 200 head and that body.
\<close>

theorem final_runs_once_when_all_continue:
  "middlewares this \<noteq> [] \<Longrightarrow>
   \<forall>m \<in> set (middlewares this). next_calls (m req) = 1 \<and> silent_until_next (m req) \<Longrightarrow>
   final_runs (events (snd (handleRequest this req []))) = 1 \<and>
   (req_method req \<in> {''GET'', ''POST'', ''PUT'', ''DELETE''} \<longrightarrow>
      (\<exists>pre post. events (snd (handleRequest this req [])) =
         pre @ [FinalCalled,
                Call (WriteHead 200 [(''Content-Type'', ''text/plain'')]),
                Call (End (''Received '' @ req_method req @ '' request for '' @ req_url req))]
             @ post))"
proof -
  assume ne: "middlewares this \<noteq> []"
    and once: "\<forall>m \<in> set (middlewares this). next_calls (m req) = 1 \<and> silent_until_next (m req)"
  from handleRequest_completes[OF ne once] obtain pre post where
    hr: "events (snd (handleRequest this req []))
           = pre @ FinalCalled # events (finalRequestHandler req []) @ post"
    and p: "final_runs pre = 0" "final_runs post = 0"
    by blast
  have "final_runs (events (snd (handleRequest this req []))) = 1"
    using hr p by simp
  moreover have "req_method req \<in> {''GET'', ''POST'', ''PUT'', ''DELETE''} \<longrightarrow>
      (\<exists>pre post. events (snd (handleRequest this req [])) =
         pre @ [FinalCalled,
                Call (WriteHead 200 [(''Content-Type'', ''text/plain'')]),
                Call (End (''Received '' @ req_method req @ '' request for '' @ req_url req))]
             @ post)"
  proof
    assume "req_method req \<in> {''GET'', ''POST'', ''PUT'', ''DELETE''}"
    then have "events (finalRequestHandler req []) =
        [Call (WriteHead 200 [(''Content-Type'', ''text/plain'')]),
         Call (End (''Received '' @ req_method req @ '' request for '' @ req_url req))]"
      by (simp add: final_fresh_values)
    with hr show "\<exists>pre post. events (snd (handleRequest this req [])) =
         pre @ [FinalCalled,
                Call (WriteHead 200 [(''Content-Type'', ''text/plain'')]),
                Call (End (''Received '' @ req_method req @ '' request for '' @ req_url req))]
             @ post"
      by (intro exI[of _ pre] exI[of _ post]) simp
  qed
  ultimately show ?thesis by blast
qed

text \<open>
  Two middleware, each calling \<open>next()\<close> once, one before and one after its own log line,
  and the request \<open>GET /ilia\<close>.
\<close>

theorem final_runs_once_when_all_continue_witness:
  "snd (handleRequest
     (use (\<lambda>req. [Do (ConsoleLog ''b''), CallNext])
       (use (\<lambda>req. [CallNext, Do (ConsoleLog ''a'')]) new_HttpServer))
     \<lparr>req_method = ''GET'', req_url = ''/ilia''\<rparr> []) =
   Inr [MiddlewareCalled 0, MiddlewareCalled 1, Call (ConsoleLog ''b''), FinalCalled,
        Call (WriteHead 200 [(''Content-Type'', ''text/plain'')]),
        Call (End ''Received GET request for /ilia''), Call (ConsoleLog ''a'')] \<and>
   final_runs (events (snd (handleRequest
     (use (\<lambda>req. [Do (ConsoleLog ''b''), CallNext])
       (use (\<lambda>req. [CallNext, Do (ConsoleLog ''a'')]) new_HttpServer))
     \<lparr>req_method = ''GET'', req_url = ''/ilia''\<rparr> []))) = 1"
proof -
  let ?s = "use (\<lambda>req. [Do (ConsoleLog ''b''), CallNext])
       (use (\<lambda>req. [CallNext, Do (ConsoleLog ''a'')]) new_HttpServer)"
  let ?q = "\<lparr>req_method = ''GET'', req_url = ''/ilia''\<rparr>"
  have m: "middlewares ?s =
      [\<lambda>req. [CallNext, Do (ConsoleLog ''a'')], \<lambda>req. [Do (ConsoleLog ''b''), CallNext]]"
    by (simp add: use_def new_HttpServer_def)
  have 1: "middlewares ?s \<noteq> []" by (simp add: m)
  have 2: "\<forall>m \<in> set (middlewares ?s). next_calls (m ?q) = 1 \<and> silent_until_next (m ?q)"
    by (simp add: m)
  have 3: "snd (handleRequest ?s ?q []) =
     Inr [MiddlewareCalled 0, MiddlewareCalled 1, Call (ConsoleLog ''b''), FinalCalled,
          Call (WriteHead 200 [(''Content-Type'', ''text/plain'')]),
          Call (End ''Received GET request for /ilia''), Call (ConsoleLog ''a'')]"
    by (simp add: handleRequest_def m finalRequestHandler_def console_log_def
        res_writeHead_def res_end_def)
  from final_runs_once_when_all_continue[OF 1 2] 3 show ?thesis by blast
qed

text \<open>
  The claim as stated fails in three ways. With no middleware every middleware (there is
  none) calls its continuation, and the request ends in the \<open>TypeError\<close> with
  \<open>finalRequestHandler\<close> never entered. With one middleware that calls \<open>next()\<close> twice,
  \<open>finalRequestHandler\<close> is entered twice, and the second time its \<open>writeHead\<close> throws.
  With one middleware that ends the response and then continues, \<open>finalRequestHandler\<close>
  is entered once and throws without writing anything.
\<close>

theorem final_runs_once_counterexample:
  "snd (handleRequest new_HttpServer \<lparr>req_method = ''GET'', req_url = ''/ilia''\<rparr> []) =
     Inl (TypeError, []) \<and>
   snd (handleRequest (use (\<lambda>req. [CallNext, CallNext]) new_HttpServer)
       \<lparr>req_method = ''GET'', req_url = ''/ilia''\<rparr> []) =
     Inl (ERR_HTTP_HEADERS_SENT,
          [MiddlewareCalled 0,
           FinalCalled, Call (WriteHead 200 [(''Content-Type'', ''text/plain'')]),
           Call (End ''Received GET request for /ilia''),
           FinalCalled]) \<and>
   snd (handleRequest (use (\<lambda>req. [Do (End ''A''), CallNext]) new_HttpServer)
       \<lparr>req_method = ''GET'', req_url = ''/ilia''\<rparr> []) =
     Inl (ERR_HTTP_HEADERS_SENT, [MiddlewareCalled 0, Call (End ''A''), FinalCalled])"
  by (simp add: handleRequest_def use_def new_HttpServer_def finalRequestHandler_def
      res_writeHead_def res_end_def)

section \<open>How often a response is finalized: claim C5\<close>




section \<open>Repeated requests: claim C9\<close>





section \<open>The singleton: claim C8\<close>

lemma instance_update_at [simp]:
  "HttpServer_instance (update_at a f p) = HttpServer_instance p"
  by (simp add: update_at_def)

lemma instance_foldr_update:
  "HttpServer_instance (foldr (update_at a) fs p) = HttpServer_instance p"
  by (induction fs) simp_all

text \<open>
  Claim C8. In a fresh process the first call of \<open>app\<close> returns a reference to a new
  server and stores it in \<open>HttpServer.instance\<close>. In any process whose slot holds a
  reference, \<open>app\<close> throws and leaves the whole process as it was: the slot, the server
  it refers to and everything registered on that server. Calls on the server object do
  not touch the slot, so this is the case for every call after the first.
\<close>

theorem app_singleton:
  "app start = (Inr 0, \<lparr>heap = [new_HttpServer], HttpServer_instance = Some 0\<rparr>) \<and>
   HttpServer_instance (foldr (update_at 0) fs (snd (app start))) = Some 0 \<and>
   (HttpServer_instance p = Some a \<longrightarrow>
      app p = (Inl (Error ''You can not run 2 servers on the same machine''), p))"
  by (simp add: instance_foldr_update) (simp add: app_def start_def)

text \<open>
  The example program calls \<open>app\<close>, then \<open>use\<close> and \<open>get\<close> on the reference it got.
  A second call of \<open>app\<close> after that throws, and the server is still the one of the
  example program.
\<close>

theorem app_singleton_witness:
  "HttpServer_instance
     (update_at 0 (get ''/ilia'' (\<lambda>req. [End ''zd'']))
       (update_at 0 (use (\<lambda>req. [Do (ConsoleLog ''Middleware called'')]))
         (snd (app start)))) = Some 0 \<and>
   app (update_at 0 (get ''/ilia'' (\<lambda>req. [End ''zd'']))
         (update_at 0 (use (\<lambda>req. [Do (ConsoleLog ''Middleware called'')]))
           (snd (app start)))) =
     (Inl (Error ''You can not run 2 servers on the same machine''),
      \<lparr>heap = [index_server], HttpServer_instance = Some 0\<rparr>)"
proof -
  let ?p = "update_at 0 (get ''/ilia'' (\<lambda>req. [End ''zd'']))
       (update_at 0 (use (\<lambda>req. [Do (ConsoleLog ''Middleware called'')]))
         (snd (app start)))"
  have slot: "HttpServer_instance ?p = Some 0"
    by (simp add: app_def start_def)
  have p: "?p = \<lparr>heap = [index_server], HttpServer_instance = Some 0\<rparr>"
    by (simp add: app_def start_def update_at_def index_server_def)
  from app_singleton[of "[]" ?p 0] slot
  have "app ?p = (Inl (Error ''You can not run 2 servers on the same machine''), ?p)"
    by blast
  with slot p show ?thesis by simp
qed

end
